theory Spec2Isabelle
  imports Main
begin

section \<open>Web Pilot: the command loop of \<^verbatim>\<open>src/pilot.js\<close>\<close>

text \<open>
  The development embeds the class \<^verbatim>\<open>WebPilot\<close> of \<^verbatim>\<open>src/pilot.js\<close>: the poll loop
  \<^verbatim>\<open>pollCommands\<close>, the dispatcher \<^verbatim>\<open>executeCommand\<close> and the helpers they call.
  The browser (Playwright), the disk and the clock are external; they are a record of
  operations over an abstract world, and every call the code makes is also appended to
  a trace of events, so that what the code did can be read off afterwards.
\<close>

subsection \<open>JavaScript strings and numbers\<close>

text \<open>
  A JavaScript string is a sequence of UTF-16 code units. It is modelled as a
  \<^typ>\<open>string\<close>, whose characters range over the code units U+0000 to U+00FF, so the
  model covers command texts in that range. The functions below are the built-in
  string methods the source calls, restricted to that range.
\<close>

definition isWhiteSpace :: "char \<Rightarrow> bool" where
  \<comment> \<open>WhiteSpace and LineTerminator code units below U+0100: TAB, LF, VT, FF, CR, SP, NBSP.\<close>
  "isWhiteSpace c = (c \<in> set [CHR 0x09, CHR 0x0A, CHR 0x0B, CHR 0x0C, CHR 0x0D, CHR 0x20, CHR 0xA0])"

definition trimStart :: "string \<Rightarrow> string" where
  "trimStart s = dropWhile isWhiteSpace s"

definition trim :: "string \<Rightarrow> string" where
  \<comment> \<open>\<^verbatim>\<open>String.prototype.trim\<close>\<close>
  "trim s = rev (dropWhile isWhiteSpace (rev (dropWhile isWhiteSpace s)))"

definition toLowerChar :: "char \<Rightarrow> char" where
  \<comment> \<open>The lower-case mapping below U+0100: A-Z, and U+00C0-U+00DE except the
      multiplication sign U+00D7, move up by 32; every other code unit is kept.\<close>
  "toLowerChar c =
     (let n = (of_char c :: nat)
      in if (65 \<le> n \<and> n \<le> 90) \<or> (192 \<le> n \<and> n \<le> 222 \<and> n \<noteq> 215)
         then char_of (n + 32) else c)"

definition toLowerCase :: "string \<Rightarrow> string" where
  \<comment> \<open>\<^verbatim>\<open>String.prototype.toLowerCase\<close>\<close>
  "toLowerCase s = map toLowerChar s"

definition startsWith :: "string \<Rightarrow> string \<Rightarrow> bool" where
  \<comment> \<open>\<^verbatim>\<open>s.startsWith(p)\<close>\<close>
  "startsWith s p = (take (length p) s = p)"

definition substring :: "string \<Rightarrow> nat \<Rightarrow> string" where
  \<comment> \<open>\<^verbatim>\<open>s.substring(n)\<close> with one argument: the code units from index n on.\<close>
  "substring s n = drop n s"

fun split :: "string \<Rightarrow> char \<Rightarrow> string list" where
  \<comment> \<open>\<^verbatim>\<open>s.split(d)\<close> for a one-character separator. The result is never empty:
      the empty string splits into one empty piece.\<close>
  "split [] d = [[]]"
| "split (c # cs) d =
     (if c = d then [] # split cs d
      else (case split cs d of [] \<Rightarrow> [[c]] | p # ps \<Rightarrow> (c # p) # ps))"

fun join :: "string list \<Rightarrow> string \<Rightarrow> string" where
  \<comment> \<open>\<^verbatim>\<open>parts.join(sep)\<close>\<close>
  "join [] sep = []"
| "join [p] sep = p"
| "join (p # q # ps) sep = p @ sep @ join (q # ps) sep"

definition slice :: "'a list \<Rightarrow> nat \<Rightarrow> 'a list" where
  \<comment> \<open>\<^verbatim>\<open>xs.slice(n)\<close> with one non-negative argument\<close>
  "slice xs n = drop n xs"

definition slice2 :: "'a list \<Rightarrow> nat \<Rightarrow> nat \<Rightarrow> 'a list" where
  \<comment> \<open>\<^verbatim>\<open>xs.slice(a, b)\<close> with non-negative arguments\<close>
  "slice2 xs a b = take (b - a) (drop a xs)"

fun collapseRuns :: "bool \<Rightarrow> string \<Rightarrow> string" where
  \<comment> \<open>The flag says that the previous character was white space, so that a run
      of white space gives one space only.\<close>
  "collapseRuns inRun [] = []"
| "collapseRuns inRun (c # cs) =
     (if isWhiteSpace c
      then (if inRun then collapseRuns True cs else CHR '' '' # collapseRuns True cs)
      else c # collapseRuns False cs)"

definition collapseWhiteSpace :: "string \<Rightarrow> string" where
  \<comment> \<open>\<^verbatim>\<open>s.replace(/\s+/g, ' ')\<close>: every maximal run of white space becomes one space.\<close>
  "collapseWhiteSpace s = collapseRuns False s"

text \<open>
  Numbers. The source's numbers are doubles; the ones it computes with here are integers
  (a parsed count of seconds, times 1000; a list length; a clock reading), and they are
  modelled as \<^typ>\<open>int\<close>. The model is exact while every value stays within the safe
  integers, up to \<open>2 ^ 53 - 1\<close> in magnitude; \<open>NaN\<close> is \<^const>\<open>None\<close>.
\<close>

definition digitValue :: "nat \<Rightarrow> char \<Rightarrow> nat option" where
  \<comment> \<open>The value of a digit in radix 10 or 16, \<^const>\<open>None\<close> for any other character.\<close>
  "digitValue radix c =
     (let n = (of_char c :: nat)
      in if 48 \<le> n \<and> n \<le> 57 then Some (n - 48)
         else if radix = 16 \<and> 97 \<le> n \<and> n \<le> 102 then Some (n - 87)
         else if radix = 16 \<and> 65 \<le> n \<and> n \<le> 70 then Some (n - 55)
         else None)"

fun digitsValue :: "nat \<Rightarrow> nat \<Rightarrow> string \<Rightarrow> nat" where
  \<comment> \<open>The value of the longest prefix of digits, most significant first.\<close>
  "digitsValue radix acc [] = acc"
| "digitsValue radix acc (c # cs) =
     (case digitValue radix c of
        None \<Rightarrow> acc
      | Some d \<Rightarrow> digitsValue radix (acc * radix + d) cs)"

definition parseDigits :: "nat \<Rightarrow> string \<Rightarrow> nat option" where
  \<comment> \<open>No leading digit at all is \<open>NaN\<close>.\<close>
  "parseDigits radix s =
     (case s of
        [] \<Rightarrow> None
      | c # cs \<Rightarrow> (case digitValue radix c of
                    None \<Rightarrow> None
                  | Some d \<Rightarrow> Some (digitsValue radix 0 s)))"

definition parseInt :: "string \<Rightarrow> int option" where
  \<comment> \<open>\<^verbatim>\<open>parseInt(s)\<close> without a radix: leading white space is skipped, then an optional
      sign, then an optional \<^verbatim>\<open>0x\<close> or \<^verbatim>\<open>0X\<close> that selects radix 16, then the digits;
      whatever follows the digits is ignored. The value is the exact integer; the source
      has the nearest double, which is the same number up to \<open>2 ^ 53\<close>.\<close>
  "parseInt s =
     (let s1 = trimStart s;
          negative = (s1 \<noteq> [] \<and> hd s1 = CHR ''-'');
          s2 = (if s1 \<noteq> [] \<and> (hd s1 = CHR ''+'' \<or> hd s1 = CHR ''-'') then tl s1 else s1);
          hex = (startsWith s2 ''0x'' \<or> startsWith s2 ''0X'');
          s3 = (if hex then drop 2 s2 else s2);
          radix = (if hex then 16 else 10)
      in case parseDigits radix s3 of
           None \<Rightarrow> None
         | Some m \<Rightarrow> Some (if negative then - int m else int m))"

definition digitChar :: "int \<Rightarrow> char" where
  "digitChar d = char_of (48 + d)"

function showDigits :: "int \<Rightarrow> string" where
  \<comment> \<open>the decimal digits of a number that is not negative\<close>
  "showDigits n = (if n < 10 then [digitChar n] else showDigits (n div 10) @ [digitChar (n mod 10)])"
  by pat_completeness auto
termination
  by (relation "measure nat") auto

declare showDigits.simps [simp del]

definition showInt :: "int \<Rightarrow> string" where
  \<comment> \<open>the text of an integer inside a template literal: all its decimal digits, as the
      source prints a number below \<open>10 ^ 21\<close> in magnitude\<close>
  "showInt i = (if i < 0 then CHR ''-'' # showDigits (- i) else showDigits i)"

definition orDefault :: "int option \<Rightarrow> int \<Rightarrow> int" where
  \<comment> \<open>\<^verbatim>\<open>n || d\<close> on a number: \<open>NaN\<close> and zero are falsy, so both give the default.\<close>
  "orDefault n d = (case n of None \<Rightarrow> d | Some v \<Rightarrow> if v = 0 then d else v)"

subsection \<open>The world outside, events, and the pilot object\<close>

datatype 'a outcome = Returns 'a | Throws string
  \<comment> \<open>what a call of an external operation does; the string is \<^verbatim>\<open>err.message\<close>\<close>

datatype 'a completion = Value 'a | Thrown string | Exited int
  \<comment> \<open>how a piece of the source's code ends: it returns, it throws, or the process
      has been terminated by \<^verbatim>\<open>process.exit\<close>\<close>

datatype event =
    Sleep int
  | LogCommand string
  | LogDone
  | LogGoodbye
  | ProcessExit int
  | PageScreenshot string
  | PageInnerText
  | PageContent
  | PageTitle
  | PageTables
  | PageLinks
  | PageGoBack
  | PageGoForward
  | PageReload
  | PageGoto string int
  | PageClick string int
  | PageWaitForLoadState
  | PageFill string string
  | PageScrollBy int int
  | PageScrollTo int int
  | PageScrollToBottom
  | BrowserClose
  | ContextClose
  | WriteFile string string

text \<open>
  The operations of Playwright's page, browser and context, of \<^verbatim>\<open>fs\<close>, \<^verbatim>\<open>path\<close> and
  \<^verbatim>\<open>Date\<close> that the source calls. Each may change the world and may throw.
  \<open>page_tables\<close> and \<open>page_links\<close> are the two DOM queries: the cells' \<^verbatim>\<open>innerText\<close> of
  every row of every table, and the \<^verbatim>\<open>innerText\<close> and \<^verbatim>\<open>href\<close> of every anchor with an
  \<^verbatim>\<open>href\<close>.
\<close>

record 'w capability =
  date_now :: "'w \<Rightarrow> int"
  path_join :: "string \<Rightarrow> string \<Rightarrow> string"
  page_url :: "'w \<Rightarrow> string"
  page_screenshot :: "string \<Rightarrow> 'w \<Rightarrow> unit outcome \<times> 'w"
  page_innerText :: "'w \<Rightarrow> string outcome \<times> 'w"
  page_content :: "'w \<Rightarrow> string outcome \<times> 'w"
  page_title :: "'w \<Rightarrow> string outcome \<times> 'w"
  page_tables :: "'w \<Rightarrow> string list list list outcome \<times> 'w"
  page_links :: "'w \<Rightarrow> (string \<times> string) list outcome \<times> 'w"
  page_goBack :: "'w \<Rightarrow> unit outcome \<times> 'w"
  page_goForward :: "'w \<Rightarrow> unit outcome \<times> 'w"
  page_reload :: "'w \<Rightarrow> unit outcome \<times> 'w"
  page_goto :: "string \<Rightarrow> int \<Rightarrow> 'w \<Rightarrow> unit outcome \<times> 'w"
  page_click :: "string \<Rightarrow> int \<Rightarrow> 'w \<Rightarrow> unit outcome \<times> 'w"
  page_waitForLoadState :: "'w \<Rightarrow> unit outcome \<times> 'w"
  page_fill :: "string \<Rightarrow> string \<Rightarrow> 'w \<Rightarrow> unit outcome \<times> 'w"
  page_scrollBy :: "int \<Rightarrow> int \<Rightarrow> 'w \<Rightarrow> unit outcome \<times> 'w"
  page_scrollTo :: "int \<Rightarrow> int \<Rightarrow> 'w \<Rightarrow> unit outcome \<times> 'w"
  page_scrollToBottom :: "'w \<Rightarrow> unit outcome \<times> 'w"
  browser_close :: "'w \<Rightarrow> unit outcome \<times> 'w"
  context_close :: "'w \<Rightarrow> unit outcome \<times> 'w"
  fs_writeFileSync :: "string \<Rightarrow> string \<Rightarrow> 'w \<Rightarrow> unit outcome \<times> 'w"

record config =
  workDir :: string
  pollInterval :: int
  timeout :: int

text \<open>
  The fields of a \<^verbatim>\<open>WebPilot\<close> object that the loop reads or writes. \<open>hasBrowser\<close> and
  \<open>hasContext\<close> say whether \<^verbatim>\<open>this.browser\<close> and \<^verbatim>\<open>this.context\<close> are set; \<open>exited\<close> is
  the exit status once \<^verbatim>\<open>process.exit\<close> has been called.
\<close>

record 'w pilot =
  world :: 'w
  hasBrowser :: bool
  hasContext :: bool
  running :: bool
  lastCommand :: string
  config :: config
  resultPath :: string
  trace :: "event list"
  exited :: "int option"

type_synonym ('w, 'a) action = "'w pilot \<Rightarrow> 'a completion \<times> 'w pilot"

definition ret :: "'a \<Rightarrow> ('w, 'a) action" where
  "ret v s = (Value v, s)"

definition throw :: "string \<Rightarrow> ('w, 'a) action" where
  "throw m s = (Thrown m, s)"

definition andThen :: "('w, 'a) action \<Rightarrow> ('a \<Rightarrow> ('w, 'b) action) \<Rightarrow> ('w, 'b) action" where
  \<comment> \<open>sequencing: what follows runs only when the first part returns\<close>
  "andThen m k s =
     (case m s of
        (Value v, s') \<Rightarrow> k v s'
      | (Thrown e, s') \<Rightarrow> (Thrown e, s')
      | (Exited c, s') \<Rightarrow> (Exited c, s'))"

definition tryCatch :: "('w, 'a) action \<Rightarrow> (string \<Rightarrow> ('w, 'a) action) \<Rightarrow> ('w, 'a) action" where
  \<comment> \<open>\<^verbatim>\<open>try { m } catch (err) { h(err.message) }\<close>\<close>
  "tryCatch m h s =
     (case m s of
        (Value v, s') \<Rightarrow> (Value v, s')
      | (Thrown e, s') \<Rightarrow> h e s'
      | (Exited c, s') \<Rightarrow> (Exited c, s'))"

definition emit :: "event \<Rightarrow> ('w, unit) action" where
  \<comment> \<open>an effect that cannot fail: a console line, a sleep\<close>
  "emit e s = (Value (), s\<lparr>trace := trace s @ [e]\<rparr>)"

definition call :: "event \<Rightarrow> ('w \<Rightarrow> 'a outcome \<times> 'w) \<Rightarrow> ('w, 'a) action" where
  \<comment> \<open>a call of an external operation: it is recorded, the world moves on, and its
      outcome is the completion\<close>
  "call e f s =
     (case f (world s) of
        (Returns v, w) \<Rightarrow> (Value v, s\<lparr>world := w, trace := trace s @ [e]\<rparr>)
      | (Throws m, w) \<Rightarrow> (Thrown m, s\<lparr>world := w, trace := trace s @ [e]\<rparr>))"

definition processExit :: "int \<Rightarrow> ('w, 'a) action" where
  \<comment> \<open>\<^verbatim>\<open>process.exit(code)\<close>: nothing after it runs\<close>
  "processExit code s = (Exited code, s\<lparr>trace := trace s @ [ProcessExit code], exited := Some code\<rparr>)"

definition sleep :: "int \<Rightarrow> ('w, unit) action" where
  "sleep ms = emit (Sleep ms)"

subsection \<open>The helpers of the dispatcher\<close>

definition newline :: string where
  "newline = [CHR 0x0A]"

definition takeScreenshot :: "'w capability \<Rightarrow> ('w, string) action" where
  "takeScreenshot cap s =
     (let timestamp = date_now cap (world s);
          filename = ''screenshot-'' @ showInt timestamp @ ''.png'';
          filepath = path_join cap (workDir (config s)) filename
      in andThen (call (PageScreenshot filepath) (page_screenshot cap filepath))
           (\<lambda>_. ret (''Screenshot saved: '' @ filepath)) s)"

definition extractText :: "'w capability \<Rightarrow> ('w, string) action" where
  "extractText cap s =
     andThen (call PageInnerText (page_innerText cap))
       (\<lambda>text. let filepath = path_join cap (workDir (config s)) ''page-text.txt''
               in andThen (call (WriteFile filepath text) (fs_writeFileSync cap filepath text))
                    (\<lambda>_. ret text)) s"

definition saveHtml :: "'w capability \<Rightarrow> ('w, string) action" where
  "saveHtml cap s =
     andThen (call PageContent (page_content cap))
       (\<lambda>html. let filepath = path_join cap (workDir (config s)) ''page.html''
               in andThen (call (WriteFile filepath html) (fs_writeFileSync cap filepath html))
                    (\<lambda>_. ret (''HTML saved: '' @ filepath))) s"

definition formatTable :: "nat \<Rightarrow> string list list \<Rightarrow> string" where
  \<comment> \<open>the text of the table with index \<open>idx\<close>: a heading, then one line for each row\<close>
  "formatTable idx rows =
     newline @ ''=== TABLE '' @ showInt (int idx + 1) @ '' ==='' @ newline @
     concat (map (\<lambda>row. join (map (\<lambda>cell. collapseWhiteSpace (trim cell)) row) '' | '' @ newline) rows)"

definition formatTables :: "string list list list \<Rightarrow> string" where
  "formatTables tables = join (map (\<lambda>(idx, rows). formatTable idx rows) (enumerate 0 tables)) newline"

definition extractTables :: "'w capability \<Rightarrow> ('w, string) action" where
  "extractTables cap s =
     andThen (call PageTables (page_tables cap))
       (\<lambda>dom. let tables = formatTables dom;
                  filepath = path_join cap (workDir (config s)) ''tables.txt''
              in andThen (call (WriteFile filepath tables) (fs_writeFileSync cap filepath tables))
                   (\<lambda>_. ret (if tables = [] then ''No tables found on page'' else tables))) s"

definition selectLinks :: "(string \<times> string) list \<Rightarrow> (string \<times> string) list" where
  \<comment> \<open>the anchors with their text trimmed, those with an empty text or address dropped,
      cut to the first 50\<close>
  "selectLinks anchors =
     slice2 (filter (\<lambda>l. fst l \<noteq> [] \<and> snd l \<noteq> []) (map (\<lambda>(t, h). (trim t, h)) anchors)) 0 50"

definition extractLinks :: "'w capability \<Rightarrow> ('w, string) action" where
  "extractLinks cap =
     andThen (call PageLinks (page_links cap))
       (\<lambda>anchors. let links = selectLinks anchors;
                      formatted = join (map (\<lambda>(t, h). t @ '': '' @ h) links) newline
                  in ret (''Found '' @ showInt (int (length links)) @ '' links:'' @ newline @ formatted))"

definition clickElement :: "'w capability \<Rightarrow> string \<Rightarrow> ('w, string) action" where
  \<comment> \<open>first as a CSS selector; when that throws, as text content\<close>
  "clickElement cap selector =
     andThen (tryCatch (call (PageClick selector 5000) (page_click cap selector 5000))
                (\<lambda>_. call (PageClick (''text='' @ selector) 5000)
                        (page_click cap (''text='' @ selector) 5000)))
       (\<lambda>_. andThen (call PageWaitForLoadState (page_waitForLoadState cap))
          (\<lambda>_. ret (''Clicked: '' @ selector)))"

definition scroll :: "'w capability \<Rightarrow> string \<Rightarrow> ('w, string) action" where
  "scroll cap direction =
     (if direction = ''up'' then
        andThen (call (PageScrollBy 0 (- 500)) (page_scrollBy cap 0 (- 500))) (\<lambda>_. ret ''Scrolled up'')
      else if direction = ''down'' then
        andThen (call (PageScrollBy 0 500) (page_scrollBy cap 0 500)) (\<lambda>_. ret ''Scrolled down'')
      else if direction = ''top'' then
        andThen (call (PageScrollTo 0 0) (page_scrollTo cap 0 0)) (\<lambda>_. ret ''Scrolled to top'')
      else if direction = ''bottom'' then
        andThen (call PageScrollToBottom (page_scrollToBottom cap)) (\<lambda>_. ret ''Scrolled to bottom'')
      else ret (''Unknown scroll direction: '' @ direction))"

definition writeResult :: "'w capability \<Rightarrow> string \<Rightarrow> ('w, unit) action" where
  "writeResult cap content s = call (WriteFile (resultPath s) content) (fs_writeFileSync cap (resultPath s) content) s"

definition currentUrl :: "'w capability \<Rightarrow> ('w, string) action" where
  \<comment> \<open>\<^verbatim>\<open>this.page.url()\<close>, a plain read\<close>
  "currentUrl cap s = (Value (page_url cap (world s)), s)"

subsection \<open>The dispatcher\<close>

definition quit :: "'w capability \<Rightarrow> ('w, string) action" where
  \<comment> \<open>the branch of \<^verbatim>\<open>cmd === 'quit'\<close>: the flag, the one close, the console line, the exit\<close>
  "quit cap =
     andThen (\<lambda>s. (Value (), s\<lparr>running := False\<rparr>))
       (\<lambda>_. andThen (\<lambda>s. if hasBrowser s then call BrowserClose (browser_close cap) s
                           else if hasContext s then call ContextClose (context_close cap) s
                           else ret () s)
          (\<lambda>_. andThen (emit LogGoodbye)
             (\<lambda>_. processExit 0)))"

definition typeText :: "'w capability \<Rightarrow> string \<Rightarrow> ('w, string) action" where
  \<comment> \<open>the branch of \<^verbatim>\<open>command.startsWith('type:')\<close>. \<^verbatim>\<open>parts[0]\<close> of an empty array would
      be \<^verbatim>\<open>undefined\<close>, and trimming it a TypeError.\<close>
  "typeText cap command =
     (let parts = split (substring command 5) (CHR '':'')
      in case parts of
           [] \<Rightarrow> throw ''Cannot read properties of undefined''
         | p0 # _ \<Rightarrow>
             (let selector = trim p0;
                  text = trim (join (slice parts 1) '':'')
              in andThen (call (PageFill selector text) (page_fill cap selector text))
                   (\<lambda>_. ret (''Typed '' @ [CHR 0x22] @ text @ [CHR 0x22] @ '' into '' @ selector))))"

definition wait :: "string \<Rightarrow> ('w, string) action" where
  \<comment> \<open>the branch of \<^verbatim>\<open>command.startsWith('wait:')\<close>\<close>
  "wait command =
     (let seconds = orDefault (parseInt (trim (substring command 5))) 2
      in andThen (sleep (seconds * 1000))
           (\<lambda>_. ret (''Waited '' @ showInt seconds @ '' seconds'')))"

definition executeCommand_try :: "'w capability \<Rightarrow> string \<Rightarrow> ('w, string) action" where
  \<comment> \<open>the \<^verbatim>\<open>try\<close> block of \<^verbatim>\<open>executeCommand\<close>\<close>
  "executeCommand_try cap command s =
     (let cmd = toLowerCase command
      in if cmd = ''screenshot'' then takeScreenshot cap s
         else if cmd = ''text'' then extractText cap s
         else if cmd = ''html'' then saveHtml cap s
         else if cmd = ''url'' then andThen (currentUrl cap) (\<lambda>u. ret (''URL: '' @ u)) s
         else if cmd = ''title'' then
           andThen (call PageTitle (page_title cap)) (\<lambda>t. ret (''Title: '' @ t)) s
         else if cmd = ''tables'' then extractTables cap s
         else if cmd = ''links'' then extractLinks cap s
         else if cmd = ''back'' then
           andThen (call PageGoBack (page_goBack cap))
             (\<lambda>_. andThen (currentUrl cap) (\<lambda>u. ret (''Navigated back to: '' @ u))) s
         else if cmd = ''forward'' then
           andThen (call PageGoForward (page_goForward cap))
             (\<lambda>_. andThen (currentUrl cap) (\<lambda>u. ret (''Navigated forward to: '' @ u))) s
         else if cmd = ''refresh'' then
           andThen (call PageReload (page_reload cap))
             (\<lambda>_. andThen (currentUrl cap) (\<lambda>u. ret (''Refreshed: '' @ u))) s
         else if cmd = ''quit'' then quit cap s
         else if startsWith command ''goto:'' then
           (let url = trim (substring command 5)
            in andThen (call (PageGoto url (timeout (config s))) (page_goto cap url (timeout (config s))))
                 (\<lambda>_. andThen (currentUrl cap) (\<lambda>u. ret (''Navigated to: '' @ u))) s)
         else if startsWith command ''click:'' then
           (let selector = trim (substring command 6)
            in clickElement cap selector s)
         else if startsWith command ''type:'' then typeText cap command s
         else if startsWith command ''wait:'' then wait command s
         else if startsWith command ''scroll:'' then
           (let direction = toLowerCase (trim (substring command 7))
            in scroll cap direction s)
         else ret (''ERROR: Unknown command: '' @ command) s)"

definition executeCommand :: "'w capability \<Rightarrow> string \<Rightarrow> ('w, string) action" where
  \<comment> \<open>the \<^verbatim>\<open>try\<close> block, and \<^verbatim>\<open>catch (err) { return `ERROR: ${err.message}` }\<close>\<close>
  "executeCommand cap command =
     tryCatch (executeCommand_try cap command) (\<lambda>message. ret (''ERROR: '' @ message))"

subsection \<open>The poll loop\<close>

datatype file_read = Missing | Unreadable string | Content string
  \<comment> \<open>what one cycle finds at the command path: \<^verbatim>\<open>fs.existsSync\<close> is false;
      \<^verbatim>\<open>fs.readFileSync\<close> throws; or the text of the file\<close>

definition readCommandFile :: "file_read \<Rightarrow> ('w, string option) action" where
  \<comment> \<open>\<^const>\<open>None\<close> is the \<^verbatim>\<open>continue\<close> of a missing file\<close>
  "readCommandFile r =
     (case r of
        Missing \<Rightarrow> ret None
      | Unreadable m \<Rightarrow> throw m
      | Content txt \<Rightarrow> ret (Some txt))"

definition pollCycle :: "'w capability \<Rightarrow> file_read \<Rightarrow> 'w pilot \<Rightarrow> 'w pilot" where
  \<comment> \<open>one turn of the \<^verbatim>\<open>while\<close> body: the sleep, then the \<^verbatim>\<open>try\<close> block whose \<^verbatim>\<open>catch\<close>
      ignores the error\<close>
  "pollCycle cap r s =
     snd (andThen (sleep (pollInterval (config s)))
            (\<lambda>_. tryCatch
                    (andThen (readCommandFile r)
                       (\<lambda>found. case found of
                            None \<Rightarrow> ret ()
                          | Some txt \<Rightarrow>
                              (let command = trim txt
                               in (\<lambda>s1. if command = [] \<or> command = lastCommand s1 then ret () s1
                                        else andThen (\<lambda>s2. (Value (), s2\<lparr>lastCommand := command\<rparr>))
                                               (\<lambda>_. andThen (emit (LogCommand command))
                                                  (\<lambda>_. andThen (executeCommand cap command)
                                                     (\<lambda>result. andThen (writeResult cap result)
                                                        (\<lambda>_. emit LogDone)))) s1))))
                    (\<lambda>_. ret ())) s)"

fun pollCommands :: "'w capability \<Rightarrow> file_read list \<Rightarrow> 'w pilot \<Rightarrow> 'w pilot" where
  \<comment> \<open>\<^verbatim>\<open>while (this.running)\<close>, one element of the list for each cycle: what the cycle
      finds at the command path. A terminated process runs no further cycle.\<close>
  "pollCommands cap [] s = s"
| "pollCommands cap (r # rs) s =
     (if running s \<and> exited s = None then pollCommands cap rs (pollCycle cap r s) else s)"

definition dispatched :: "event list \<Rightarrow> string list" where
  \<comment> \<open>the commands handed to \<^verbatim>\<open>executeCommand\<close>, in order: each dispatch is announced
      on the console just before the call, and nowhere else\<close>
  "dispatched tr = concat (map (\<lambda>e. case e of LogCommand c \<Rightarrow> [c] | _ \<Rightarrow> []) tr)"

definition resultsWritten :: "string \<Rightarrow> event list \<Rightarrow> string list" where
  \<comment> \<open>the texts written to the file at the given path, in order\<close>
  "resultsWritten path tr = concat (map (\<lambda>e. case e of WriteFile p c \<Rightarrow> (if p = path then [c] else []) | _ \<Rightarrow> []) tr)"

definition exactTags :: "string list" where
  \<comment> \<open>the texts that \<^verbatim>\<open>cmd\<close> is compared with by \<^verbatim>\<open>===\<close>, in the order of the source\<close>
  "exactTags = [''screenshot'', ''text'', ''html'', ''url'', ''title'', ''tables'', ''links'',
                ''back'', ''forward'', ''refresh'', ''quit'']"

definition prefixTags :: "string list" where
  \<comment> \<open>the tags whose prefix \<^verbatim>\<open>tag:\<close> is tested by \<^verbatim>\<open>command.startsWith\<close>, in the order of the source\<close>
  "prefixTags = [''goto'', ''click'', ''type'', ''wait'', ''scroll'']"

subsection \<open>A sample world\<close>

text \<open>
  A small browser to run the model on: it remembers the address it was sent to, fails to
  click the selector \<^verbatim>\<open>#missing-element\<close> either way, and counts the calls of \<^verbatim>\<open>close\<close>.
\<close>

record sample_world =
  location :: string
  clock :: int
  closes :: nat

definition sampleCap :: "sample_world capability" where
  "sampleCap =
     \<lparr> date_now = clock,
       path_join = (\<lambda>dir file. dir @ ''/'' @ file),
       page_url = location,
       page_screenshot = (\<lambda>path w. (Returns (), w)),
       page_innerText = (\<lambda>w. (Returns ''Example Domain'', w)),
       page_content = (\<lambda>w. (Returns ''<html></html>'', w)),
       page_title = (\<lambda>w. (Returns ''Example Domain'', w)),
       page_tables = (\<lambda>w. (Returns [], w)),
       page_links = (\<lambda>w. (Returns [(''More information...'', ''https://www.iana.org/domains/example'')], w)),
       page_goBack = (\<lambda>w. (Returns (), w)),
       page_goForward = (\<lambda>w. (Returns (), w)),
       page_reload = (\<lambda>w. (Returns (), w)),
       page_goto = (\<lambda>url ms w. if url = [] then (Throws ''Cannot navigate to invalid URL'', w)
                                else (Returns (), w\<lparr>location := url\<rparr>)),
       page_click = (\<lambda>selector ms w.
                       if selector = ''#missing-element'' \<or> selector = ''text=#missing-element''
                       then (Throws ''Timeout 5000ms exceeded.'', w) else (Returns (), w)),
       page_waitForLoadState = (\<lambda>w. (Returns (), w)),
       page_fill = (\<lambda>selector text w. (Returns (), w)),
       page_scrollBy = (\<lambda>x y w. (Returns (), w)),
       page_scrollTo = (\<lambda>x y w. (Returns (), w)),
       page_scrollToBottom = (\<lambda>w. (Returns (), w)),
       browser_close = (\<lambda>w. (Returns (), w\<lparr>closes := closes w + 1\<rparr>)),
       context_close = (\<lambda>w. (Returns (), w\<lparr>closes := closes w + 1\<rparr>)),
       fs_writeFileSync = (\<lambda>path text w. (Returns (), w)) \<rparr>"

definition samplePilot :: "sample_world pilot" where
  \<comment> \<open>a pilot as \<^verbatim>\<open>start\<close> leaves it after a launch without a profile: browser and context
      set, the flag raised, no command seen yet\<close>
  "samplePilot =
     \<lparr> world = \<lparr> location = ''about:blank'', clock = 1700000000000, closes = 0 \<rparr>,
       hasBrowser = True,
       hasContext = True,
       running = True,
       lastCommand = [],
       config = \<lparr> workDir = ''/work'', pollInterval = 1000, timeout = 30000 \<rparr>,
       resultPath = ''/work/result.txt'',
       trace = [],
       exited = None \<rparr>"








subsection \<open>Notions used in the statements and proofs\<close>

definition scrollDirections :: "string list" where
  \<comment> \<open>the \<^verbatim>\<open>case\<close> labels of the \<^verbatim>\<open>switch\<close> in \<^verbatim>\<open>scroll\<close>\<close>
  "scrollDirections = [''up'', ''down'', ''top'', ''bottom'']"


definition isClose :: "event \<Rightarrow> bool" where
  \<comment> \<open>a release of the browser resource\<close>
  "isClose e = (e = BrowserClose \<or> e = ContextClose)"

definition release :: "'w capability \<Rightarrow> 'w pilot \<Rightarrow> unit outcome \<times> 'w" where
  \<comment> \<open>the close that \<^verbatim>\<open>quit\<close> makes: of the browser when there is one, else of the context\<close>
  "release cap s = (if hasBrowser s then browser_close cap (world s) else context_close cap (world s))"

definition releaseEvent :: "'w pilot \<Rightarrow> event" where
  "releaseEvent s = (if hasBrowser s then BrowserClose else ContextClose)"

definition advances :: "'w pilot \<Rightarrow> 'w pilot \<Rightarrow> bool" where
  \<comment> \<open>the second state is the first one after some calls: only the world and the trace
      differ, the trace has grown, and no dispatch was announced\<close>
  "advances s s' = (\<exists>w es. s' = s\<lparr>world := w, trace := trace s @ es\<rparr> \<and> dispatched es = [])"

definition quiet :: "('w, 'a) action \<Rightarrow> bool" where
  "quiet m = (\<forall>s. advances s (snd (m s)))"

definition suppressed :: "'w pilot \<Rightarrow> bool" where
  \<comment> \<open>the invariant of the loop: no command was dispatched twice in a row, none was
      empty, and \<open>lastCommand\<close> is the last one dispatched\<close>
  "suppressed s = (let ds = dispatched (trace s)
                   in distinct_adj ds \<and> [] \<notin> set ds \<and> (ds \<noteq> [] \<longrightarrow> last ds = lastCommand s))"

section \<open>Properties\<close>

subsection \<open>What a command may change\<close>

lemma advances_refl: "advances s s"
proof -
  have "s = s\<lparr>world := world s, trace := trace s @ []\<rparr>" by simp
  moreover have "dispatched [] = []" by (simp add: dispatched_def)
  ultimately show ?thesis unfolding advances_def by blast
qed

lemma dispatched_append: "dispatched (xs @ ys) = dispatched xs @ dispatched ys"
  by (simp add: dispatched_def)

lemma advances_trans:
  assumes "advances s t" and "advances t u"
  shows "advances s u"
proof -
  from assms(1) obtain w es where t: "t = s\<lparr>world := w, trace := trace s @ es\<rparr>" and es: "dispatched es = []"
    unfolding advances_def by blast
  from assms(2) obtain w' es' where u: "u = t\<lparr>world := w', trace := trace t @ es'\<rparr>" and es': "dispatched es' = []"
    unfolding advances_def by blast
  have "u = s\<lparr>world := w', trace := trace s @ (es @ es')\<rparr>"
    by (simp add: t u)
  moreover have "dispatched (es @ es') = []"
    by (simp add: dispatched_append es es')
  ultimately show ?thesis unfolding advances_def by blast
qed

lemma advances_event:
  assumes "dispatched [e] = []"
  shows "advances s (s\<lparr>world := w, trace := trace s @ [e]\<rparr>)"
  unfolding advances_def using assms by blast

lemma quietD: "quiet m \<Longrightarrow> advances s (snd (m s))"
  by (simp add: quiet_def)

lemma quiet_ret: "quiet (ret v)"
  by (simp add: quiet_def ret_def advances_refl)

lemma quiet_throw: "quiet (throw m)"
  by (simp add: quiet_def throw_def advances_refl)

lemma quiet_currentUrl: "quiet (currentUrl cap)"
  by (simp add: quiet_def currentUrl_def advances_refl)

lemma quiet_emit:
  assumes "dispatched [e] = []"
  shows "quiet (emit e)"
proof -
  have "advances s (s\<lparr>trace := trace s @ [e]\<rparr>)" for s :: "'a pilot"
    using advances_event [OF assms, of s "world s"] by simp
  then show ?thesis by (simp add: quiet_def emit_def)
qed

lemma quiet_call:
  assumes "dispatched [e] = []"
  shows "quiet (call e f)"
  unfolding quiet_def call_def
  by (auto split: prod.splits outcome.splits intro: advances_event [OF assms])

lemma quiet_andThen:
  assumes "quiet m" and "\<And>v. quiet (k v)"
  shows "quiet (andThen m k)"
proof -
  have "advances s (snd (andThen m k s))" for s
  proof (cases "m s")
    case (Pair r s')
    have a: "advances s s'" using quietD [OF assms(1), of s] Pair by simp
    show ?thesis
    proof (cases r)
      case (Value v)
      have "advances s' (snd (k v s'))" by (rule quietD [OF assms(2)])
      with a show ?thesis by (simp add: andThen_def Pair Value advances_trans)
    qed (simp_all add: andThen_def Pair a)
  qed
  then show ?thesis by (simp add: quiet_def)
qed

lemma quiet_tryCatch:
  assumes "quiet m" and "\<And>e. quiet (h e)"
  shows "quiet (tryCatch m h)"
proof -
  have "advances s (snd (tryCatch m h s))" for s
  proof (cases "m s")
    case (Pair r s')
    have a: "advances s s'" using quietD [OF assms(1), of s] Pair by simp
    show ?thesis
    proof (cases r)
      case (Thrown e)
      have "advances s' (snd (h e s'))" by (rule quietD [OF assms(2)])
      with a show ?thesis by (simp add: tryCatch_def Pair Thrown advances_trans)
    qed (simp_all add: tryCatch_def Pair a)
  qed
  then show ?thesis by (simp add: quiet_def)
qed

lemma quiet_sleep: "quiet (sleep ms)"
  by (simp add: sleep_def quiet_emit dispatched_def)

lemmas quiet_intros = quiet_ret quiet_throw quiet_currentUrl quiet_sleep quiet_andThen quiet_tryCatch quiet_call quiet_emit

lemma quiet_fun: "(\<And>s. advances s (snd (m s))) \<Longrightarrow> quiet m"
  by (simp add: quiet_def)

lemma quiet_takeScreenshot: "quiet (takeScreenshot cap)"
  by (rule quiet_fun) (simp add: takeScreenshot_def Let_def quietD quiet_intros dispatched_def)

lemma quiet_extractText: "quiet (extractText cap)"
  by (rule quiet_fun) (simp add: extractText_def Let_def quietD quiet_intros dispatched_def)

lemma quiet_saveHtml: "quiet (saveHtml cap)"
  by (rule quiet_fun) (simp add: saveHtml_def Let_def quietD quiet_intros dispatched_def)

lemma quiet_extractTables: "quiet (extractTables cap)"
  by (rule quiet_fun) (simp add: extractTables_def Let_def quietD quiet_intros dispatched_def)

lemma quiet_extractLinks: "quiet (extractLinks cap)"
  by (simp add: extractLinks_def Let_def quiet_intros dispatched_def)

lemma quiet_clickElement: "quiet (clickElement cap selector)"
  by (simp add: clickElement_def quiet_intros dispatched_def)

lemma quiet_scroll: "quiet (scroll cap direction)"
  by (simp add: scroll_def quiet_intros dispatched_def)

lemma quiet_typeText: "quiet (typeText cap command)"
  by (simp add: typeText_def Let_def quiet_intros dispatched_def split: list.splits)

lemma quiet_wait: "quiet (wait command)"
  by (simp add: wait_def Let_def quiet_intros)

lemma quiet_writeResult: "quiet (writeResult cap content)"
  by (rule quiet_fun) (simp add: writeResult_def quietD quiet_intros dispatched_def)


lemma quiet_executeCommand_try:
  assumes "toLowerCase command \<noteq> ''quit''"
  shows "quiet (executeCommand_try cap command)"
  by (rule quiet_fun)
     (simp add: executeCommand_try_def Let_def assms quietD quiet_intros dispatched_def
        quiet_takeScreenshot quiet_extractText quiet_saveHtml quiet_extractTables
        quiet_extractLinks quiet_clickElement quiet_scroll quiet_typeText quiet_wait)

lemma quiet_executeCommand:
  assumes "toLowerCase command \<noteq> ''quit''"
  shows "quiet (executeCommand cap command)"
  unfolding executeCommand_def
  by (intro quiet_tryCatch quiet_executeCommand_try assms quiet_ret)

lemma advances_running: "advances s s' \<Longrightarrow> running s' = running s"
  by (auto simp add: advances_def)

lemma advances_exited: "advances s s' \<Longrightarrow> exited s' = exited s"
  by (auto simp add: advances_def)

lemma advances_lastCommand: "advances s s' \<Longrightarrow> lastCommand s' = lastCommand s"
  by (auto simp add: advances_def)

lemma advances_dispatched: "advances s s' \<Longrightarrow> dispatched (trace s') = dispatched (trace s)"
  by (auto simp add: advances_def dispatched_append)


subsection \<open>Exact tags\<close>

lemma exactTags_lower: "list_all (\<lambda>t. toLowerCase t = t) exactTags"
  by code_simp

lemma toLowerCase_exactTags: "tag \<in> set exactTags \<Longrightarrow> toLowerCase tag = tag"
  using exactTags_lower by (simp add: list_all_iff)

lemma exactTags_cases:
  assumes "tag \<in> set exactTags"
  shows "tag = ''screenshot'' \<or> tag = ''text'' \<or> tag = ''html'' \<or> tag = ''url'' \<or>
         tag = ''title'' \<or> tag = ''tables'' \<or> tag = ''links'' \<or> tag = ''back'' \<or>
         tag = ''forward'' \<or> tag = ''refresh'' \<or> tag = ''quit''"
  using assms by (simp add: exactTags_def)

lemma executeCommand_try_exact:
  assumes "tag \<in> set exactTags" and "toLowerCase command = tag"
  shows "executeCommand_try cap command s = executeCommand_try cap tag s"
proof -
  have low: "toLowerCase tag = tag"
    using assms(1) by (rule toLowerCase_exactTags)
  from exactTags_cases [OF assms(1)] show ?thesis
    unfolding executeCommand_try_def Let_def assms(2) low
    by (elim disjE) simp_all
qed

text \<open>
  C8. Matching of the exact tags is case-insensitive and takes nothing from the rest of
  the text: a command whose lower-casing is one of the eleven exact tags does exactly
  what the lower-case tag itself does, in every world and every state of the pilot
  (same completion, same resulting state, same trace of calls).
\<close>

theorem exact_tags_case_insensitive:
  assumes "tag \<in> set exactTags" and "toLowerCase command = tag"
  shows "executeCommand cap command s = executeCommand cap tag s"
  using executeCommand_try_exact [OF assms, of cap s]
  by (simp add: executeCommand_def tryCatch_def)

theorem exact_tags_case_insensitive_witness:
  "''title'' \<in> set exactTags \<and> toLowerCase ''TiTLe'' = ''title'' \<and>
   executeCommand sampleCap ''TiTLe'' samplePilot = executeCommand sampleCap ''title'' samplePilot \<and>
   fst (executeCommand sampleCap ''TiTLe'' samplePilot) = Value ''Title: Example Domain''"
proof -
  have h1: "''title'' \<in> set exactTags" by (simp add: exactTags_def)
  have h2: "toLowerCase ''TiTLe'' = ''title''" by code_simp
  have h3: "fst (executeCommand sampleCap ''title'' samplePilot) = Value ''Title: Example Domain''"
    by code_simp
  show ?thesis
    using h1 h2 h3 exact_tags_case_insensitive [OF h1 h2, of sampleCap samplePilot] by simp
qed

subsection \<open>Routing of a command with a colon\<close>

lemma toLowerChar_colon: "toLowerChar c = CHR '':'' \<longleftrightarrow> c = CHR '':''"
  by (cases c) (simp add: toLowerChar_def Let_def char_of_def bit_Suc_0_iff)

lemma colon_toLowerCase: "CHR '':'' \<in> set (toLowerCase s) \<longleftrightarrow> CHR '':'' \<in> set s"
proof
  assume "CHR '':'' \<in> set (toLowerCase s)"
  then obtain c where c: "c \<in> set s" "toLowerChar c = CHR '':''"
    by (auto simp add: toLowerCase_def)
  then show "CHR '':'' \<in> set s"
    by (simp add: toLowerChar_colon)
next
  assume "CHR '':'' \<in> set s"
  moreover have "toLowerChar (CHR '':'') = CHR '':''"
    by (simp add: toLowerChar_colon)
  ultimately show "CHR '':'' \<in> set (toLowerCase s)"
    unfolding toLowerCase_def set_map by (metis image_eqI)
qed

lemma exactTags_no_colon: "list_all (\<lambda>t. CHR '':'' \<notin> set t) exactTags"
  by (simp add: exactTags_def)

lemma prefixTags_no_colon: "list_all (\<lambda>t. CHR '':'' \<notin> set t) prefixTags"
  by (simp add: prefixTags_def)

lemma prefixTags_lower: "list_all (\<lambda>t. toLowerCase t = t) prefixTags"
  by code_simp

lemma colon_not_exact:
  assumes "CHR '':'' \<in> set command"
  shows "toLowerCase command \<notin> set exactTags"
proof
  assume "toLowerCase command \<in> set exactTags"
  then have "CHR '':'' \<notin> set (toLowerCase command)"
    using exactTags_no_colon by (simp add: list_all_iff)
  with assms show False by (simp add: colon_toLowerCase)
qed

lemma startsWith_colon:
  assumes "startsWith command p" and "CHR '':'' \<in> set p"
  shows "CHR '':'' \<in> set command"
proof -
  from assms have "CHR '':'' \<in> set (take (length p) command)"
    by (simp add: startsWith_def)
  then show ?thesis by (rule in_set_takeD)
qed

lemma startsWith_shorter:
  assumes "startsWith command p" and "length q \<le> length p"
  shows "startsWith command q \<longleftrightarrow> take (length q) p = q"
proof -
  have "take (length q) command = take (length q) (take (length p) command)"
    using assms(2) by (simp add: min_def)
  also have "\<dots> = take (length q) p"
    using assms(1) by (simp add: startsWith_def)
  finally show ?thesis by (simp add: startsWith_def)
qed

lemma not_exact_unfold:
  assumes "cmd \<notin> set exactTags"
  shows "cmd \<noteq> ''screenshot''" "cmd \<noteq> ''text''" "cmd \<noteq> ''html''" "cmd \<noteq> ''url''"
    "cmd \<noteq> ''title''" "cmd \<noteq> ''tables''" "cmd \<noteq> ''links''" "cmd \<noteq> ''back''"
    "cmd \<noteq> ''forward''" "cmd \<noteq> ''refresh''" "cmd \<noteq> ''quit''"
  using assms by (simp_all add: exactTags_def)

lemma executeCommand_try_scroll:
  assumes "startsWith command ''scroll:''"
  shows "executeCommand_try cap command s = scroll cap (toLowerCase (trim (substring command 7))) s"
proof -
  have "CHR '':'' \<in> set command"
    by (rule startsWith_colon [OF assms]) simp
  note ne = not_exact_unfold [OF colon_not_exact [OF this]]
  have "\<not> startsWith command ''goto:''" "\<not> startsWith command ''click:''"
    "\<not> startsWith command ''type:''" "\<not> startsWith command ''wait:''"
    by (simp_all add: startsWith_shorter [OF assms])
  then show ?thesis
    by (simp add: executeCommand_try_def Let_def ne assms)
qed

subsection \<open>Scrolling\<close>

text \<open>
  C6. A command \<^verbatim>\<open>scroll:<direction>\<close> whose direction, trimmed and lower-cased, is none
  of up, down, top, bottom returns the result \<^verbatim>\<open>Unknown scroll direction: \<close> followed by
  that direction. It returns (it neither throws nor exits), and the pilot is left exactly
  as it was: no call is made, the session state is the same, the flag \<open>running\<close> with it,
  so the loop goes on.
\<close>

theorem scroll_unknown_direction:
  assumes "startsWith command ''scroll:''"
    and "toLowerCase (trim (substring command 7)) \<notin> set scrollDirections"
  shows "executeCommand cap command s =
           (Value (''Unknown scroll direction: '' @ toLowerCase (trim (substring command 7))), s)"
proof -
  have "scroll cap (toLowerCase (trim (substring command 7))) s =
          (Value (''Unknown scroll direction: '' @ toLowerCase (trim (substring command 7))), s)"
    using assms(2) by (simp add: scroll_def scrollDirections_def ret_def)
  then show ?thesis
    by (simp add: executeCommand_def tryCatch_def executeCommand_try_scroll [OF assms(1)])
qed

theorem scroll_unknown_direction_witness:
  "startsWith ''scroll: Sideways'' ''scroll:'' \<and>
   toLowerCase (trim (substring ''scroll: Sideways'' 7)) \<notin> set scrollDirections \<and>
   executeCommand sampleCap ''scroll: Sideways'' samplePilot =
     (Value ''Unknown scroll direction: sideways'', samplePilot)"
proof -
  have h1: "startsWith ''scroll: Sideways'' ''scroll:''" by code_simp
  have h2: "toLowerCase (trim (substring ''scroll: Sideways'' 7)) \<notin> set scrollDirections" by code_simp
  have h3: "toLowerCase (trim (substring ''scroll: Sideways'' 7)) = ''sideways''" by code_simp
  show ?thesis
    using h1 h2 scroll_unknown_direction [OF h1 h2, of sampleCap samplePilot] by (simp add: h3)
qed

subsection \<open>Prefixed tags are matched as written\<close>

lemma first_segment:
  assumes "CHR '':'' \<notin> set a"
  shows "takeWhile (\<lambda>c. c \<noteq> CHR '':'') (a @ CHR '':'' # r) = a"
proof -
  have "takeWhile (\<lambda>c. c \<noteq> CHR '':'') (a @ CHR '':'' # r) = a @ takeWhile (\<lambda>c. c \<noteq> CHR '':'') (CHR '':'' # r)"
    using assms by (intro takeWhile_append2) auto
  then show ?thesis by simp
qed

lemma startsWith_tag_colon:
  assumes "startsWith (t @ CHR '':'' # rest) (p @ '':'')"
    and "CHR '':'' \<notin> set t" and "CHR '':'' \<notin> set p"
  shows "t = p"
proof -
  define c where "c = t @ CHR '':'' # rest"
  define d where "d = drop (length (p @ '':'')) c"
  have tk: "take (length (p @ '':'')) c = p @ '':''"
    using assms(1) unfolding startsWith_def c_def .
  have "take (length (p @ '':'')) c @ d = c"
    unfolding d_def by (rule append_take_drop_id)
  then have "(p @ '':'') @ d = c"
    unfolding tk .
  then have "p @ CHR '':'' # d = t @ CHR '':'' # rest"
    unfolding c_def by simp
  then have "takeWhile (\<lambda>c. c \<noteq> CHR '':'') (p @ CHR '':'' # d) =
             takeWhile (\<lambda>c. c \<noteq> CHR '':'') (t @ CHR '':'' # rest)"
    by (rule arg_cong)
  then show ?thesis
    unfolding first_segment [OF assms(2)] first_segment [OF assms(3)] by (rule sym)
qed

lemma mixed_case_tag_no_prefix:
  assumes "toLowerCase t \<in> set prefixTags" and "t \<noteq> toLowerCase t" and "p \<in> set prefixTags"
  shows "\<not> startsWith (t @ CHR '':'' # rest) (p @ '':'')"
proof
  assume sw: "startsWith (t @ CHR '':'' # rest) (p @ '':'')"
  have "CHR '':'' \<notin> set (toLowerCase t)"
    using assms(1) prefixTags_no_colon by (simp add: list_all_iff)
  then have nt: "CHR '':'' \<notin> set t"
    by (simp add: colon_toLowerCase)
  have np: "CHR '':'' \<notin> set p"
    using assms(3) prefixTags_no_colon by (simp add: list_all_iff)
  have "t = p" by (rule startsWith_tag_colon [OF sw nt np])
  moreover have "toLowerCase p = p"
    using assms(3) prefixTags_lower by (simp add: list_all_iff)
  ultimately show False using assms(2) by simp
qed

lemma executeCommand_try_unknown:
  assumes "toLowerCase command \<notin> set exactTags"
    and "\<forall>p\<in>set prefixTags. \<not> startsWith command (p @ '':'')"
  shows "executeCommand_try cap command s = (Value (''ERROR: Unknown command: '' @ command), s)"
proof -
  note ne = not_exact_unfold [OF assms(1)]
  have "\<not> startsWith command ''goto:''" "\<not> startsWith command ''click:''"
    "\<not> startsWith command ''type:''" "\<not> startsWith command ''wait:''"
    "\<not> startsWith command ''scroll:''"
    using assms(2) by (simp_all add: prefixTags_def)
  then show ?thesis
    by (simp add: executeCommand_try_def Let_def ne ret_def)
qed

text \<open>
  C10. The prefixed tags are matched on the command text as written, not on its
  lower-casing: a command \<^verbatim>\<open>tag:rest\<close> whose tag lower-cases to one of goto, click,
  type, wait, scroll but is not itself in lower case returns the result
  \<^verbatim>\<open>ERROR: Unknown command: \<close> followed by the command, and leaves the pilot exactly as
  it was, so no browser action is performed.
\<close>

theorem mixed_case_prefix_unknown:
  assumes "command = t @ '':'' @ rest"
    and "toLowerCase t \<in> set prefixTags" and "t \<noteq> toLowerCase t"
  shows "executeCommand cap command s = (Value (''ERROR: Unknown command: '' @ command), s)"
proof -
  have c: "command = t @ CHR '':'' # rest" using assms(1) by simp
  have "CHR '':'' \<in> set command" by (simp add: c)
  then have a: "toLowerCase command \<notin> set exactTags"
    by (rule colon_not_exact)
  have b: "\<forall>p\<in>set prefixTags. \<not> startsWith command (p @ '':'')"
    unfolding c using mixed_case_tag_no_prefix [OF assms(2,3)] by blast
  show ?thesis
    using executeCommand_try_unknown [OF a b, of cap s]
    by (simp add: executeCommand_def tryCatch_def)
qed

theorem mixed_case_prefix_unknown_witness:
  "''GOTO:https://example.com'' = ''GOTO'' @ '':'' @ ''https://example.com'' \<and>
   toLowerCase ''GOTO'' \<in> set prefixTags \<and> ''GOTO'' \<noteq> toLowerCase ''GOTO'' \<and>
   executeCommand sampleCap ''GOTO:https://example.com'' samplePilot =
     (Value ''ERROR: Unknown command: GOTO:https://example.com'', samplePilot)"
proof -
  have h0: "''GOTO:https://example.com'' = ''GOTO'' @ '':'' @ ''https://example.com''" by simp
  have h1: "toLowerCase ''GOTO'' \<in> set prefixTags" by code_simp
  have h2: "''GOTO'' \<noteq> toLowerCase ''GOTO''"
    by (simp add: toLowerCase_def toLowerChar_def char_of_def bit_Suc_0_iff)
  have h3: "executeCommand sampleCap ''GOTO:https://example.com'' samplePilot =
     (Value ''ERROR: Unknown command: GOTO:https://example.com'', samplePilot)"
    using mixed_case_prefix_unknown [OF h0 h1 h2, of sampleCap samplePilot] by simp
  from h0 h1 h2 h3 show ?thesis by (intro conjI)
qed

subsection \<open>The quit branch and one poll cycle\<close>

lemma executeCommand_try_quit:
  assumes "toLowerCase command = ''quit''"
  shows "executeCommand_try cap command s = quit cap s"
  by (simp add: executeCommand_try_def Let_def assms)

lemma quit_unfold:
  "quit cap s =
     (if hasBrowser s then
        (case browser_close cap (world s) of
           (Returns u, w) \<Rightarrow>
             (Exited 0, s\<lparr>world := w, running := False,
                            trace := trace s @ [BrowserClose, LogGoodbye, ProcessExit 0],
                            exited := Some 0\<rparr>)
         | (Throws m, w) \<Rightarrow>
             (Thrown m, s\<lparr>world := w, running := False, trace := trace s @ [BrowserClose]\<rparr>))
      else if hasContext s then
        (case context_close cap (world s) of
           (Returns u, w) \<Rightarrow>
             (Exited 0, s\<lparr>world := w, running := False,
                            trace := trace s @ [ContextClose, LogGoodbye, ProcessExit 0],
                            exited := Some 0\<rparr>)
         | (Throws m, w) \<Rightarrow>
             (Thrown m, s\<lparr>world := w, running := False, trace := trace s @ [ContextClose]\<rparr>))
      else (Exited 0, s\<lparr>running := False, trace := trace s @ [LogGoodbye, ProcessExit 0],
                           exited := Some 0\<rparr>))"
  by (simp add: quit_def andThen_def call_def emit_def processExit_def ret_def
      split: prod.splits outcome.splits)

lemma quit_dispatched: "dispatched (trace (snd (quit cap s))) = dispatched (trace s)"
  by (simp add: quit_unfold dispatched_def split: prod.splits outcome.splits)

lemma quit_lastCommand: "lastCommand (snd (quit cap s)) = lastCommand s"
  by (simp add: quit_unfold split: prod.splits outcome.splits)

lemma quit_running: "\<not> running (snd (quit cap s))"
  by (simp add: quit_unfold split: prod.splits outcome.splits)

lemma snd_tryCatch_ret:
  "snd (tryCatch m (\<lambda>e. ret (f e)) s) = snd (m s)"
  by (simp add: tryCatch_def ret_def split: prod.splits completion.splits)

lemma executeCommand_state: "snd (executeCommand cap command s) = snd (executeCommand_try cap command s)"
  by (simp add: executeCommand_def snd_tryCatch_ret)

lemma executeCommand_dispatched:
  "dispatched (trace (snd (executeCommand cap command s))) = dispatched (trace s)"
proof (cases "toLowerCase command = ''quit''")
  case True
  then show ?thesis
    by (simp add: executeCommand_state executeCommand_try_quit quit_dispatched)
next
  case False
  then show ?thesis
    by (intro advances_dispatched quietD quiet_executeCommand)
qed

lemma executeCommand_lastCommand:
  "lastCommand (snd (executeCommand cap command s)) = lastCommand s"
proof (cases "toLowerCase command = ''quit''")
  case True
  then show ?thesis
    by (simp add: executeCommand_state executeCommand_try_quit quit_lastCommand)
next
  case False
  then show ?thesis
    by (intro advances_lastCommand quietD quiet_executeCommand)
qed


lemma andThen_alt:
  "andThen m k = (\<lambda>s. case m s of (Value v, s') \<Rightarrow> k v s' | (Thrown e, s') \<Rightarrow> (Thrown e, s')
                         | (Exited c, s') \<Rightarrow> (Exited c, s'))"
  by (rule ext) (simp add: andThen_def)

lemma tryCatch_alt:
  "tryCatch m h = (\<lambda>s. case m s of (Value v, s') \<Rightarrow> (Value v, s') | (Thrown e, s') \<Rightarrow> h e s'
                          | (Exited c, s') \<Rightarrow> (Exited c, s'))"
  by (rule ext) (simp add: tryCatch_def)

lemma pollCycle_idle:
  assumes "r = Missing \<or> (\<exists>m. r = Unreadable m) \<or>
           (\<exists>txt. r = Content txt \<and> (trim txt = [] \<or> trim txt = lastCommand s))"
  shows "pollCycle cap r s = s\<lparr>trace := trace s @ [Sleep (pollInterval (config s))]\<rparr>"
  using assms
  by (auto simp add: pollCycle_def andThen_alt tryCatch_alt sleep_def emit_def ret_def throw_def
      readCommandFile_def Let_def)

lemma pollCycle_dispatch:
  assumes "trim txt \<noteq> []" and "trim txt \<noteq> lastCommand s"
  shows "pollCycle cap (Content txt) s =
     (case executeCommand cap (trim txt)
             (s\<lparr>lastCommand := trim txt,
                trace := trace s @ [Sleep (pollInterval (config s)), LogCommand (trim txt)]\<rparr>) of
        (Value result, s2) \<Rightarrow>
          (case writeResult cap result s2 of
             (Value u, s3) \<Rightarrow> s3\<lparr>trace := trace s3 @ [LogDone]\<rparr>
           | (Thrown m, s3) \<Rightarrow> s3
           | (Exited c, s3) \<Rightarrow> s3)
      | (Thrown m, s2) \<Rightarrow> s2
      | (Exited c, s2) \<Rightarrow> s2)"
proof -
  let ?s1 = "s\<lparr>lastCommand := trim txt,
               trace := trace s @ [Sleep (pollInterval (config s)), LogCommand (trim txt)]\<rparr>"
  obtain r s2 where e: "executeCommand cap (trim txt) ?s1 = (r, s2)"
    by (cases "executeCommand cap (trim txt) ?s1")
  note defs = pollCycle_def andThen_alt tryCatch_alt sleep_def emit_def ret_def
    readCommandFile_def Let_def
  show ?thesis
  proof (cases r)
    case (Value result)
    obtain r' s3 where w: "writeResult cap result s2 = (r', s3)"
      by (cases "writeResult cap result s2")
    show ?thesis
      using assms e Value w by (cases r') (simp_all add: defs)
  next
    case (Thrown m)
    show ?thesis using assms e Thrown by (simp add: defs)
  next
    case (Exited c)
    show ?thesis using assms e Exited by (simp add: defs)
  qed
qed

lemma dispatched_simps:
  "dispatched [] = []"
  "dispatched (LogCommand c # es) = c # dispatched es"
  "dispatched (Sleep n # es) = dispatched es"
  "dispatched (LogDone # es) = dispatched es"
  by (simp_all add: dispatched_def)

lemma pollCycle_dispatch_state:
  assumes "trim txt \<noteq> []" and "trim txt \<noteq> lastCommand s"
  shows "dispatched (trace (pollCycle cap (Content txt) s)) = dispatched (trace s) @ [trim txt] \<and>
         lastCommand (pollCycle cap (Content txt) s) = trim txt"
proof -
  let ?s1 = "s\<lparr>lastCommand := trim txt,
               trace := trace s @ [Sleep (pollInterval (config s)), LogCommand (trim txt)]\<rparr>"
  obtain r s2 where e: "executeCommand cap (trim txt) ?s1 = (r, s2)"
    by (cases "executeCommand cap (trim txt) ?s1")
  have d2: "dispatched (trace s2) = dispatched (trace s) @ [trim txt]"
    using executeCommand_dispatched [of cap "trim txt" ?s1] e
    by (simp add: dispatched_append dispatched_simps)
  have l2: "lastCommand s2 = trim txt"
    using executeCommand_lastCommand [of cap "trim txt" ?s1] e by simp
  show ?thesis
  proof (cases r)
    case (Value result)
    obtain r' s3 where w: "writeResult cap result s2 = (r', s3)"
      by (cases "writeResult cap result s2")
    have a: "advances s2 s3"
      using quietD [OF quiet_writeResult, of s2 cap result] w by simp
    have d3: "dispatched (trace s3) = dispatched (trace s) @ [trim txt]"
      using advances_dispatched [OF a] d2 by simp
    have l3: "lastCommand s3 = trim txt"
      using advances_lastCommand [OF a] l2 by simp
    show ?thesis
      using e Value w d3 l3
      by (cases r') (simp_all add: pollCycle_dispatch [OF assms] dispatched_append dispatched_simps)
  next
    case (Thrown m)
    then show ?thesis using e d2 l2 by (simp add: pollCycle_dispatch [OF assms])
  next
    case (Exited c)
    then show ?thesis using e d2 l2 by (simp add: pollCycle_dispatch [OF assms])
  qed
qed

lemma pollCycle_keeps_running:
  assumes "\<forall>txt. r = Content txt \<longrightarrow> toLowerCase (trim txt) \<noteq> ''quit''"
  shows "running (pollCycle cap r s) = running s \<and> exited (pollCycle cap r s) = exited s"
proof (cases "r = Missing \<or> (\<exists>m. r = Unreadable m) \<or>
           (\<exists>txt. r = Content txt \<and> (trim txt = [] \<or> trim txt = lastCommand s))")
  case True
  then show ?thesis by (simp add: pollCycle_idle)
next
  case False
  then obtain body where r: "r = Content body" and ne: "trim body \<noteq> []" "trim body \<noteq> lastCommand s"
    by (cases r) auto
  from assms r have nq: "toLowerCase (trim body) \<noteq> ''quit''" by simp
  let ?s1 = "s\<lparr>lastCommand := trim body,
               trace := trace s @ [Sleep (pollInterval (config s)), LogCommand (trim body)]\<rparr>"
  obtain c s2 where e: "executeCommand cap (trim body) ?s1 = (c, s2)"
    by (cases "executeCommand cap (trim body) ?s1")
  have a2: "advances ?s1 s2"
    using quietD [OF quiet_executeCommand [OF nq], of ?s1 cap] e by simp
  have r2: "running s2 = running s" "exited s2 = exited s"
    using advances_running [OF a2] advances_exited [OF a2] by simp_all
  show ?thesis
  proof (cases c)
    case (Value result)
    obtain r' s3 where w: "writeResult cap result s2 = (r', s3)"
      by (cases "writeResult cap result s2")
    have a: "advances s2 s3"
      using quietD [OF quiet_writeResult, of s2 cap result] w by simp
    have r3: "running s3 = running s" "exited s3 = exited s"
      using advances_running [OF a] advances_exited [OF a] r2 by simp_all
    show ?thesis
      using e Value w r3 unfolding r
      by (cases r') (simp_all add: pollCycle_dispatch [OF ne])
  next
    case (Thrown m)
    then show ?thesis using e r2 unfolding r by (simp add: pollCycle_dispatch [OF ne])
  next
    case (Exited x)
    then show ?thesis using e r2 unfolding r by (simp add: pollCycle_dispatch [OF ne])
  qed
qed

subsection \<open>Cycles without a command\<close>

text \<open>
  C9. A poll cycle that finds no command file, that fails to read it, or that reads
  empty or white-space-only text does nothing but its sleep: no command is dispatched,
  nothing is written to the result file, \<open>lastCommand\<close> is unchanged, and the flag
  \<open>running\<close> and the exit status are unchanged, so the loop goes on.
\<close>

theorem poll_no_command:
  assumes "r = Missing \<or> (\<exists>m. r = Unreadable m) \<or> (\<exists>txt. r = Content txt \<and> trim txt = [])"
  shows "pollCycle cap r s = s\<lparr>trace := trace s @ [Sleep (pollInterval (config s))]\<rparr> \<and>
         dispatched (trace (pollCycle cap r s)) = dispatched (trace s) \<and>
         resultsWritten (resultPath s) (trace (pollCycle cap r s)) = resultsWritten (resultPath s) (trace s) \<and>
         lastCommand (pollCycle cap r s) = lastCommand s \<and>
         running (pollCycle cap r s) = running s \<and>
         exited (pollCycle cap r s) = exited s"
proof -
  have "pollCycle cap r s = s\<lparr>trace := trace s @ [Sleep (pollInterval (config s))]\<rparr>"
    using assms by (intro pollCycle_idle) blast
  then show ?thesis
    by (simp add: dispatched_def resultsWritten_def)
qed

theorem poll_no_command_witness:
  "pollCycle sampleCap Missing samplePilot = samplePilot\<lparr>trace := [Sleep 1000]\<rparr> \<and>
   pollCycle sampleCap (Unreadable ''EBUSY'') samplePilot = samplePilot\<lparr>trace := [Sleep 1000]\<rparr> \<and>
   trim ''  '' = [] \<and>
   pollCycle sampleCap (Content ''  '') samplePilot = samplePilot\<lparr>trace := [Sleep 1000]\<rparr>"
proof -
  have t: "trim ''  '' = []" by (simp add: trim_def isWhiteSpace_def)
  have c: "pollInterval (config samplePilot) = 1000" "trace samplePilot = []"
    by (simp_all add: samplePilot_def)
  have "pollCycle sampleCap Missing samplePilot = samplePilot\<lparr>trace := [Sleep 1000]\<rparr>"
    using poll_no_command [of Missing sampleCap samplePilot] by (simp add: c)
  moreover have "pollCycle sampleCap (Unreadable ''EBUSY'') samplePilot = samplePilot\<lparr>trace := [Sleep 1000]\<rparr>"
    using poll_no_command [of "Unreadable ''EBUSY''" sampleCap samplePilot] by (simp add: c)
  moreover have "pollCycle sampleCap (Content ''  '') samplePilot = samplePilot\<lparr>trace := [Sleep 1000]\<rparr>"
    using poll_no_command [of "Content ''  ''" sampleCap samplePilot] t by (simp add: c)
  ultimately show ?thesis using t by simp
qed

subsection \<open>The running flag\<close>

text \<open>
  C7. Only \<^verbatim>\<open>quit\<close> changes the state of the session: for every command whose
  lower-casing is not \<^verbatim>\<open>quit\<close>, \<^verbatim>\<open>executeCommand\<close> leaves the flag \<open>running\<close> and the exit
  status as they were, and so does a whole poll cycle whatever it reads, unless it
  reads a text that trims and lower-cases to \<^verbatim>\<open>quit\<close>.
\<close>

theorem running_changed_only_by_quit:
  "(toLowerCase command \<noteq> ''quit'' \<longrightarrow>
      running (snd (executeCommand cap command s)) = running s \<and>
      exited (snd (executeCommand cap command s)) = exited s) \<and>
   ((\<forall>txt. r = Content txt \<longrightarrow> toLowerCase (trim txt) \<noteq> ''quit'') \<longrightarrow>
      running (pollCycle cap r s) = running s \<and> exited (pollCycle cap r s) = exited s)"
proof (intro conjI impI)
  assume nq: "toLowerCase command \<noteq> ''quit''"
  have a: "advances s (snd (executeCommand cap command s))"
    by (rule quietD [OF quiet_executeCommand [OF nq]])
  show "running (snd (executeCommand cap command s)) = running s"
    by (rule advances_running [OF a])
  show "exited (snd (executeCommand cap command s)) = exited s"
    by (rule advances_exited [OF a])
next
  assume h: "\<forall>txt. r = Content txt \<longrightarrow> toLowerCase (trim txt) \<noteq> ''quit''"
  show "running (pollCycle cap r s) = running s"
    using pollCycle_keeps_running [OF h, of cap s] by simp
  show "exited (pollCycle cap r s) = exited s"
    using pollCycle_keeps_running [OF h, of cap s] by simp
qed

theorem running_changed_only_by_quit_witness:
  "toLowerCase ''click:#missing-element'' \<noteq> ''quit'' \<and>
   running (snd (executeCommand sampleCap ''click:#missing-element'' samplePilot)) \<and>
   exited (snd (executeCommand sampleCap ''click:#missing-element'' samplePilot)) = None \<and>
   toLowerCase (trim ''click:#missing-element'') \<noteq> ''quit'' \<and>
   running (pollCycle sampleCap (Content ''click:#missing-element'') samplePilot) \<and>
   exited (pollCycle sampleCap (Content ''click:#missing-element'') samplePilot) = None"
proof -
  have h1: "toLowerCase ''click:#missing-element'' \<noteq> ''quit''"
    by (simp add: toLowerCase_def)
  have t: "trim ''click:#missing-element'' = ''click:#missing-element''"
    by (simp add: trim_def isWhiteSpace_def)
  have h2: "\<forall>txt. Content ''click:#missing-element'' = Content txt \<longrightarrow> toLowerCase (trim txt) \<noteq> ''quit''"
    using h1 t by auto
  have c: "running samplePilot" "exited samplePilot = None"
    by (simp_all add: samplePilot_def)
  show ?thesis
    using running_changed_only_by_quit
      [of "''click:#missing-element''" sampleCap samplePilot "Content ''click:#missing-element''"]
      h1 h2 c t by simp
qed

subsection \<open>Duplicate suppression\<close>

lemma distinct_adj_snoc:
  "distinct_adj (xs @ [x]) \<longleftrightarrow> distinct_adj xs \<and> (xs = [] \<or> last xs \<noteq> x)"
  by (simp add: distinct_adj_append_iff)

lemma distinct_adj_single_value:
  assumes "distinct_adj xs" and "set xs \<subseteq> {a}"
  shows "length xs \<le> 1"
proof (cases xs)
  case Nil
  then show ?thesis by simp
next
  case (Cons x ys)
  show ?thesis
  proof (cases ys)
    case Nil
    with Cons show ?thesis by simp
  next
    case (Cons y zs)
    with \<open>xs = x # ys\<close> assms show ?thesis by auto
  qed
qed

lemma suppressed_pollCycle:
  assumes "suppressed s"
  shows "suppressed (pollCycle cap r s)"
proof (cases "r = Missing \<or> (\<exists>m. r = Unreadable m) \<or>
           (\<exists>txt. r = Content txt \<and> (trim txt = [] \<or> trim txt = lastCommand s))")
  case True
  then have "pollCycle cap r s = s\<lparr>trace := trace s @ [Sleep (pollInterval (config s))]\<rparr>"
    by (rule pollCycle_idle)
  then show ?thesis
    using assms by (simp add: suppressed_def dispatched_append dispatched_simps)
next
  case False
  then obtain body where r: "r = Content body" and ne: "trim body \<noteq> []" "trim body \<noteq> lastCommand s"
    by (cases r) auto
  from pollCycle_dispatch_state [OF ne, of cap]
  have d: "dispatched (trace (pollCycle cap r s)) = dispatched (trace s) @ [trim body]"
    and l: "lastCommand (pollCycle cap r s) = trim body"
    unfolding r by simp_all
  show ?thesis
    using assms ne unfolding suppressed_def Let_def d l
    by (auto simp add: distinct_adj_snoc)
qed

lemma suppressed_pollCommands:
  assumes "suppressed s"
  shows "suppressed (pollCommands cap rs s)"
  using assms
proof (induction rs arbitrary: s)
  case Nil
  then show ?case by simp
next
  case (Cons r rs)
  then show ?case by (simp add: suppressed_pollCycle)
qed

lemma pollCycle_dispatched_source:
  "set (dispatched (trace (pollCycle cap r s))) \<subseteq>
     set (dispatched (trace s)) \<union> (case r of Content txt \<Rightarrow> {trim txt} | _ \<Rightarrow> {})"
proof (cases "r = Missing \<or> (\<exists>m. r = Unreadable m) \<or>
           (\<exists>txt. r = Content txt \<and> (trim txt = [] \<or> trim txt = lastCommand s))")
  case True
  then have "pollCycle cap r s = s\<lparr>trace := trace s @ [Sleep (pollInterval (config s))]\<rparr>"
    by (rule pollCycle_idle)
  then show ?thesis
    by (simp add: dispatched_append dispatched_simps)
next
  case False
  then obtain body where r: "r = Content body" and ne: "trim body \<noteq> []" "trim body \<noteq> lastCommand s"
    by (cases r) auto
  from pollCycle_dispatch_state [OF ne, of cap]
  have d: "dispatched (trace (pollCycle cap r s)) = dispatched (trace s) @ [trim body]"
    unfolding r by simp
  show ?thesis unfolding d by (simp add: r)
qed

lemma pollCommands_dispatched_source:
  assumes "\<forall>r\<in>set rs. r = Content txt"
  shows "set (dispatched (trace (pollCommands cap rs s))) \<subseteq> set (dispatched (trace s)) \<union> {trim txt}"
  using assms
proof (induction rs arbitrary: s)
  case Nil
  then show ?case by auto
next
  case (Cons r rs)
  then have r: "r = Content txt" and rest: "\<forall>r\<in>set rs. r = Content txt" by simp_all
  show ?case
  proof (cases "running s \<and> exited s = None")
    case True
    have "set (dispatched (trace (pollCommands cap rs (pollCycle cap r s)))) \<subseteq>
            set (dispatched (trace (pollCycle cap r s))) \<union> {trim txt}"
      by (rule Cons.IH [OF rest])
    moreover have "set (dispatched (trace (pollCycle cap r s))) \<subseteq> set (dispatched (trace s)) \<union> {trim txt}"
      using pollCycle_dispatched_source [of cap r s] by (simp add: r)
    ultimately show ?thesis using True by auto
  next
    case False
    then show ?thesis by auto
  qed
qed

text \<open>
  C1. In every run of the poll loop from a pilot that has dispatched nothing yet,
  whatever the cycles read and whatever the browser does, no command text is dispatched
  twice in a row and no dispatched text is empty; and when every cycle reads the same
  content (the command written once), at most one dispatch occurs however many cycles
  there are.
\<close>

theorem no_duplicate_dispatch:
  assumes "dispatched (trace s) = []"
  shows "distinct_adj (dispatched (trace (pollCommands cap rs s))) \<and>
         [] \<notin> set (dispatched (trace (pollCommands cap rs s))) \<and>
         ((\<forall>r\<in>set rs. r = Content txt) \<longrightarrow> length (dispatched (trace (pollCommands cap rs s))) \<le> 1)"
proof -
  have "suppressed s"
    using assms by (simp add: suppressed_def)
  then have sup: "suppressed (pollCommands cap rs s)"
    by (rule suppressed_pollCommands)
  then have d: "distinct_adj (dispatched (trace (pollCommands cap rs s)))"
    and n: "[] \<notin> set (dispatched (trace (pollCommands cap rs s)))"
    by (simp_all add: suppressed_def Let_def)
  have "length (dispatched (trace (pollCommands cap rs s))) \<le> 1"
    if all: "\<forall>r\<in>set rs. r = Content txt"
  proof -
    have "set (dispatched (trace (pollCommands cap rs s))) \<subseteq> {trim txt}"
      using pollCommands_dispatched_source [OF all, of cap s] assms by simp
    with d show ?thesis by (rule distinct_adj_single_value)
  qed
  with d n show ?thesis by blast
qed

theorem no_duplicate_dispatch_witness:
  "dispatched (trace samplePilot) = [] \<and>
   list_all (\<lambda>r. r = Content ''title'') [Content ''title'', Content ''title'', Content ''title''] \<and>
   dispatched (trace (pollCommands sampleCap [Content ''title'', Content ''title'', Content ''title'']
      samplePilot)) = [''title''] \<and>
   distinct_adj (dispatched (trace (pollCommands sampleCap
      [Content ''title'', Content ''title'', Content ''title''] samplePilot)))"
proof -
  have h1: "dispatched (trace samplePilot) = []"
    by (simp add: samplePilot_def dispatched_def)
  have h2: "list_all (\<lambda>r. r = Content ''title'') [Content ''title'', Content ''title'', Content ''title'']"
    by simp
  have h3: "dispatched (trace (pollCommands sampleCap [Content ''title'', Content ''title'', Content ''title'']
      samplePilot)) = [''title'']"
    by code_simp
  from no_duplicate_dispatch [OF h1, of sampleCap "[Content ''title'', Content ''title'', Content ''title'']" "''title''"]
  have h4: "distinct_adj (dispatched (trace (pollCommands sampleCap
      [Content ''title'', Content ''title'', Content ''title''] samplePilot)))"
    by blast
  from h1 h2 h3 h4 show ?thesis by (intro conjI)
qed

subsection \<open>Quit\<close>

lemma pollCommands_stopped:
  assumes "\<not> (running s \<and> exited s = None)"
  shows "pollCommands cap rs s = s"
  using assms by (cases rs) auto

lemma isClose_simps:
  "\<not> isClose (Sleep n)" "\<not> isClose (LogCommand c)" "\<not> isClose LogDone" "\<not> isClose LogGoodbye"
  "\<not> isClose (ProcessExit k)" "\<not> isClose (WriteFile p t)" "isClose BrowserClose" "isClose ContextClose"
  by (simp_all add: isClose_def)

lemma writeResult_unfold:
  "writeResult cap content s =
     (case fs_writeFileSync cap (resultPath s) content (world s) of
        (Returns u, w) \<Rightarrow> (Value u, s\<lparr>world := w, trace := trace s @ [WriteFile (resultPath s) content]\<rparr>)
      | (Throws m, w) \<Rightarrow> (Thrown m, s\<lparr>world := w, trace := trace s @ [WriteFile (resultPath s) content]\<rparr>))"
  by (simp add: writeResult_def call_def)

lemma executeCommand_quit:
  assumes "toLowerCase command = ''quit''" and "hasBrowser s \<or> hasContext s"
  shows "executeCommand cap command s =
     (case release cap s of
        (Returns u, w) \<Rightarrow>
          (Exited 0, s\<lparr>world := w, running := False,
                         trace := trace s @ [releaseEvent s, LogGoodbye, ProcessExit 0],
                         exited := Some 0\<rparr>)
      | (Throws m, w) \<Rightarrow>
          (Value (''ERROR: '' @ m), s\<lparr>world := w, running := False, trace := trace s @ [releaseEvent s]\<rparr>))"
  using assms(2)
  by (auto simp add: executeCommand_def tryCatch_def executeCommand_try_quit [OF assms(1)] quit_unfold
      release_def releaseEvent_def ret_def split: prod.splits outcome.splits)

text \<open>
  C3, as the code has it. When a running pilot that holds a browser or a context reads
  a new command that trims and lower-cases to \<^verbatim>\<open>quit\<close>, the cycle sets \<open>running\<close> to
  false and closes the browser resource exactly once (the browser when there is one,
  else the context); no later cycle runs, whatever is written to the command file
  afterwards; and when the close returns, the cycle consists of the sleep, the
  announcement of the command, the close, the goodbye line on the console and the exit
  of the process with status 0, and of nothing else: no result is written.
\<close>

theorem quit_stops_the_loop:
  assumes "running s" and "exited s = None" and "hasBrowser s \<or> hasContext s"
    and "toLowerCase (trim txt) = ''quit''" and "trim txt \<noteq> lastCommand s"
  shows "\<not> running (pollCycle cap (Content txt) s) \<and>
         length (filter isClose (trace (pollCycle cap (Content txt) s))) =
           length (filter isClose (trace s)) + 1 \<and>
         pollCommands cap (Content txt # rs) s = pollCycle cap (Content txt) s \<and>
         (\<forall>u w. release cap s = (Returns u, w) \<longrightarrow>
            exited (pollCycle cap (Content txt) s) = Some 0 \<and>
            trace (pollCycle cap (Content txt) s) =
              trace s @ [Sleep (pollInterval (config s)), LogCommand (trim txt), releaseEvent s,
                         LogGoodbye, ProcessExit 0])"
proof -
  let ?s1 = "s\<lparr>lastCommand := trim txt,
               trace := trace s @ [Sleep (pollInterval (config s)), LogCommand (trim txt)]\<rparr>"
  have ne: "trim txt \<noteq> []"
    using assms(4) by (auto simp add: toLowerCase_def)
  have hb: "hasBrowser ?s1 \<or> hasContext ?s1"
    using assms(3) by simp
  have rel: "release cap ?s1 = release cap s" "releaseEvent ?s1 = releaseEvent s"
    by (simp_all add: release_def releaseEvent_def)
  note pc = pollCycle_dispatch [OF ne assms(5), of cap]
  note ex = executeCommand_quit [OF assms(4) hb, of cap, unfolded rel]
  obtain o1 w where r: "release cap s = (o1, w)"
    by (cases "release cap s")
  have main: "\<not> running (pollCycle cap (Content txt) s) \<and>
         length (filter isClose (trace (pollCycle cap (Content txt) s))) =
           length (filter isClose (trace s)) + 1 \<and>
         (\<forall>u w. release cap s = (Returns u, w) \<longrightarrow>
            exited (pollCycle cap (Content txt) s) = Some 0 \<and>
            trace (pollCycle cap (Content txt) s) =
              trace s @ [Sleep (pollInterval (config s)), LogCommand (trim txt), releaseEvent s,
                         LogGoodbye, ProcessExit 0])"
  proof (cases o1)
    case (Returns u)
    show ?thesis
      unfolding pc ex r Returns
      by (simp add: isClose_simps releaseEvent_def)
  next
    case (Throws m)
    show ?thesis
      unfolding pc ex r Throws
      by (simp add: isClose_simps releaseEvent_def writeResult_unfold split: prod.splits outcome.splits)
  qed
  then have "\<not> (running (pollCycle cap (Content txt) s) \<and> exited (pollCycle cap (Content txt) s) = None)"
    by simp
  then have "pollCommands cap rs (pollCycle cap (Content txt) s) = pollCycle cap (Content txt) s"
    by (rule pollCommands_stopped)
  then have "pollCommands cap (Content txt # rs) s = pollCycle cap (Content txt) s"
    using assms(1,2) by simp
  with main show ?thesis by blast
qed

theorem quit_stops_the_loop_witness:
  "running samplePilot \<and> exited samplePilot = None \<and> hasBrowser samplePilot \<and>
   toLowerCase (trim ''Quit'') = ''quit'' \<and> trim ''Quit'' \<noteq> lastCommand samplePilot \<and>
   \<not> running (pollCycle sampleCap (Content ''Quit'') samplePilot) \<and>
   pollCommands sampleCap [Content ''Quit'', Content ''title''] samplePilot =
     pollCycle sampleCap (Content ''Quit'') samplePilot \<and>
   trace (pollCycle sampleCap (Content ''Quit'') samplePilot) =
     [Sleep 1000, LogCommand ''Quit'', BrowserClose, LogGoodbye, ProcessExit 0]"
proof -
  have h1: "running samplePilot" and h2: "exited samplePilot = None" and h3: "hasBrowser samplePilot"
    by (simp_all add: samplePilot_def)
  have h3': "hasBrowser samplePilot \<or> hasContext samplePilot" using h3 by simp
  have h4: "toLowerCase (trim ''Quit'') = ''quit''" by code_simp
  have h5: "trim ''Quit'' \<noteq> lastCommand samplePilot"
    by (simp add: samplePilot_def trim_def isWhiteSpace_def)
  have h6: "trace (pollCycle sampleCap (Content ''Quit'') samplePilot) =
     [Sleep 1000, LogCommand ''Quit'', BrowserClose, LogGoodbye, ProcessExit 0]"
    by code_simp
  from quit_stops_the_loop [OF h1 h2 h3' h4 h5, of sampleCap "[Content ''title'']"]
  have h7: "\<not> running (pollCycle sampleCap (Content ''Quit'') samplePilot)"
    and h8: "pollCommands sampleCap [Content ''Quit'', Content ''title''] samplePilot =
     pollCycle sampleCap (Content ''Quit'') samplePilot"
    by blast+
  from h1 h2 h3 h4 h5 h6 h7 h8 show ?thesis by (intro conjI)
qed

text \<open>
  C3 as stated asks for an acknowledgment result written before the process ends. On the
  sample world the process ends with status 0 and the result file has not been written.
\<close>

theorem quit_writes_no_result:
  "exited (pollCommands sampleCap [Content ''quit''] samplePilot) = Some 0 \<and>
   resultsWritten (resultPath samplePilot)
     (trace (pollCommands sampleCap [Content ''quit''] samplePilot)) = []"
  by code_simp

subsection \<open>Typing into a field\<close>

lemma split_not_Nil: "split s d \<noteq> []"
  by (induction s) (auto split: list.splits)

lemma split_first:
  assumes "d \<notin> set a"
  shows "split (a @ d # r) d = a # split r d"
  using assms
proof (induction a)
  case Nil
  then show ?case by simp
next
  case (Cons c a)
  then show ?case by auto
qed

lemma join_Cons_Cons: "join ((c # p) # ps) sep = c # join (p # ps) sep"
  by (cases ps) simp_all

lemma join_Nil_Cons: "ps \<noteq> [] \<Longrightarrow> join ([] # ps) sep = sep @ join ps sep"
  by (cases ps) simp_all

lemma join_split: "join (split s d) [d] = s"
proof (induction s)
  case Nil
  then show ?case by simp
next
  case (Cons c s)
  show ?case
  proof (cases "c = d")
    case True
    then show ?thesis
      using Cons.IH by (simp add: join_Nil_Cons split_not_Nil)
  next
    case False
    obtain p ps where sp: "split s d = p # ps"
      using split_not_Nil [of s d] by (cases "split s d") auto
    show ?thesis
      using False Cons.IH by (simp add: sp join_Cons_Cons)
  qed
qed

lemma executeCommand_try_type:
  assumes "startsWith command ''type:''"
  shows "executeCommand_try cap command s = typeText cap command s"
proof -
  have "CHR '':'' \<in> set command"
    by (rule startsWith_colon [OF assms]) simp
  note ne = not_exact_unfold [OF colon_not_exact [OF this]]
  have "\<not> startsWith command ''goto:''"
    by (simp add: startsWith_shorter [OF assms])
  moreover have "\<not> startsWith command ''click:''"
  proof
    assume c: "startsWith command ''click:''"
    have "startsWith command ''type:'' \<longleftrightarrow> take (length ''type:'') ''click:'' = ''type:''"
      by (rule startsWith_shorter [OF c]) simp
    with assms show False by simp
  qed
  ultimately show ?thesis
    by (simp add: executeCommand_try_def Let_def ne assms)
qed

text \<open>
  C4, as the code has it. For a command \<^verbatim>\<open>type:<selector>:<text>\<close> whose selector holds
  no colon, the one call made is \<^verbatim>\<open>fill\<close> with the selector trimmed and with everything
  after the first colon, further colons included, trimmed; the result names both, or is
  the \<^verbatim>\<open>ERROR: \<close> text when \<^verbatim>\<open>fill\<close> throws. In particular \<^verbatim>\<open>type:#field:hello:world\<close> types
  \<^verbatim>\<open>hello:world\<close> into \<^verbatim>\<open>#field\<close>.
\<close>

theorem type_splits_on_first_colon:
  assumes "command = ''type:'' @ selector @ '':'' @ txt" and "CHR '':'' \<notin> set selector"
  shows "executeCommand cap command s =
     (case page_fill cap (trim selector) (trim txt) (world s) of
        (Returns u, w) \<Rightarrow>
          (Value (''Typed '' @ [CHR 0x22] @ trim txt @ [CHR 0x22] @ '' into '' @ trim selector),
           s\<lparr>world := w, trace := trace s @ [PageFill (trim selector) (trim txt)]\<rparr>)
      | (Throws m, w) \<Rightarrow>
          (Value (''ERROR: '' @ m),
           s\<lparr>world := w, trace := trace s @ [PageFill (trim selector) (trim txt)]\<rparr>))"
proof -
  have sw: "startsWith command ''type:''"
    by (simp add: assms(1) startsWith_def)
  have sub: "substring command 5 = selector @ CHR '':'' # txt"
    by (simp add: assms(1) substring_def)
  have parts: "split (substring command 5) (CHR '':'') = selector # split txt (CHR '':'')"
    unfolding sub by (rule split_first [OF assms(2)])
  have "typeText cap command s =
     andThen (call (PageFill (trim selector) (trim txt)) (page_fill cap (trim selector) (trim txt)))
       (\<lambda>_. ret (''Typed '' @ [CHR 0x22] @ trim txt @ [CHR 0x22] @ '' into '' @ trim selector)) s"
    by (simp add: typeText_def Let_def parts slice_def join_split)
  then show ?thesis
    by (simp add: executeCommand_def tryCatch_def executeCommand_try_type [OF sw]
        andThen_def call_def ret_def split: prod.splits outcome.splits)
qed


theorem type_splits_on_first_colon_witness:
  "''type:#field:hello:world'' = ''type:'' @ ''#field'' @ '':'' @ ''hello:world'' \<and>
   CHR '':'' \<notin> set ''#field'' \<and>
   executeCommand sampleCap ''type:#field:hello:world'' samplePilot =
     (Value (''Typed '' @ [CHR 0x22] @ ''hello:world'' @ [CHR 0x22] @ '' into #field''),
      samplePilot\<lparr>trace := [PageFill ''#field'' ''hello:world'']\<rparr>)"
proof -
  have h1: "''type:#field:hello:world'' = ''type:'' @ ''#field'' @ '':'' @ ''hello:world''" by simp
  have h2: "CHR '':'' \<notin> set ''#field''" by simp
  have t: "trim ''#field'' = ''#field''" "trim ''hello:world'' = ''hello:world''"
    by (simp_all add: trim_def isWhiteSpace_def)
  have h3: "executeCommand sampleCap ''type:#field:hello:world'' samplePilot =
     (Value (''Typed '' @ [CHR 0x22] @ ''hello:world'' @ [CHR 0x22] @ '' into #field''),
      samplePilot\<lparr>trace := [PageFill ''#field'' ''hello:world'']\<rparr>)"
    using type_splits_on_first_colon [OF h1 h2, of sampleCap samplePilot]
    unfolding t by (simp add: sampleCap_def samplePilot_def)
  from h1 h2 h3 show ?thesis by (intro conjI)
qed

text \<open>
  C4 as stated takes everything after the first colon as the text. White space around
  it is dropped: after \<^verbatim>\<open>type:#field: hello\<close> the text typed is \<^verbatim>\<open>hello\<close>, without the
  leading space.
\<close>

theorem type_trims_the_text:
  "substring ''type:#field: hello'' 12 = '' hello'' \<and>
   trace (snd (executeCommand sampleCap ''type:#field: hello'' samplePilot)) = [PageFill ''#field'' ''hello'']"
  by code_simp

subsection \<open>Waiting\<close>

lemma executeCommand_try_wait:
  assumes "startsWith command ''wait:''"
  shows "executeCommand_try cap command s = wait command s"
proof -
  have "CHR '':'' \<in> set command"
    by (rule startsWith_colon [OF assms]) simp
  note ne = not_exact_unfold [OF colon_not_exact [OF this]]
  have "\<not> startsWith command ''goto:''" "\<not> startsWith command ''type:''"
    by (simp_all add: startsWith_shorter [OF assms])
  moreover have "\<not> startsWith command ''click:''"
  proof
    assume c: "startsWith command ''click:''"
    have "startsWith command ''wait:'' \<longleftrightarrow> take (length ''wait:'') ''click:'' = ''wait:''"
      by (rule startsWith_shorter [OF c]) simp
    with assms show False by simp
  qed
  ultimately show ?thesis
    by (simp add: executeCommand_try_def Let_def ne assms)
qed

lemma executeCommand_wait:
  assumes "startsWith command ''wait:''"
  shows "executeCommand cap command s =
     (Value (''Waited '' @ showInt (orDefault (parseInt (trim (substring command 5))) 2) @ '' seconds''),
      s\<lparr>trace := trace s @ [Sleep (orDefault (parseInt (trim (substring command 5))) 2 * 1000)]\<rparr>)"
  by (simp add: executeCommand_def tryCatch_def executeCommand_try_wait [OF assms] wait_def Let_def
      andThen_def sleep_def emit_def ret_def)

lemma orDefault_cases:
  "orDefault None d = d" "orDefault (Some 0) d = d" "n \<noteq> 0 \<Longrightarrow> orDefault (Some n) d = n"
  by (simp_all add: orDefault_def)

text \<open>
  C5 asks that \<^verbatim>\<open>wait:0\<close> waits 0 seconds, the default of 2 being kept for arguments
  that do not parse. The argument 0 parses, and yet \<^verbatim>\<open>parseInt(...) || 2\<close> takes the
  default for it: the pilot sleeps 2000 ms and answers \<^verbatim>\<open>Waited 2 seconds\<close>.
\<close>

theorem wait_zero_waits_two_seconds:
  "executeCommand cap ''wait:0'' s = (Value ''Waited 2 seconds'', s\<lparr>trace := trace s @ [Sleep 2000]\<rparr>)"
proof -
  have sw: "startsWith ''wait:0'' ''wait:''" by (simp add: startsWith_def)
  have p: "parseInt (trim (substring ''wait:0'' 5)) = Some 0" by code_simp
  have sh: "showInt 2 = ''2''" by code_simp
  show ?thesis
    by (simp add: executeCommand_wait [OF sw] p orDefault_def sh)
qed

subsection \<open>Failures become results\<close>


































end
